theory Spec2Isabelle
  imports Main "HOL-Library.Sublist"
begin

section \<open>The external packages the repository builds on\<close>

subsection \<open>Strings and formatting\<close>

text \<open>
  A Go \<open>string\<close> is a sequence of bytes, and so is \<open>[]byte\<close>: the conversions
  \<open>string(p)\<close> and \<open>[]byte(log)\<close> keep the bytes as they are. Both are \<^typ>\<open>string\<close> here.

  \<open>strings.Contains(s, substr)\<close> reports whether \<open>substr\<close> occurs in \<open>s\<close>; the empty
  string occurs in every string.
\<close>

fun Contains :: "string \<Rightarrow> string \<Rightarrow> bool" where
  "Contains [] substr = (substr = [])"
| "Contains (c # s) substr = (prefix substr (c # s) \<or> Contains s substr)"

text \<open>The decimal digits of a natural number, as \<open>fmt\<close> prints them for \<open>%d\<close>.\<close>

fun decimal :: "nat \<Rightarrow> string" where
  "decimal n =
     (if n < 10 then [''0123456789'' ! n]
      else decimal (n div 10) @ [''0123456789'' ! (n mod 10)])"

declare decimal.simps [simp del]

text \<open>\<open>fmt.Sprintf("%+d", val)\<close>: the sign is always printed.\<close>

definition Sprintf_plus_d :: "int \<Rightarrow> string" where
  "Sprintf_plus_d val =
     (if 0 \<le> val then CHR ''+'' # decimal (nat val) else CHR ''-'' # decimal (nat (- val)))"

subsection \<open>log/slog: levels, records, handler options\<close>

text \<open>
  \<open>slog.Level\<close> is an integer type with four named constants; any other integer is a
  custom level. Go's \<open>int\<close> has 64 bits; the only arithmetic on a level is the
  subtraction in \<open>Level.String\<close> of a named constant from a level that is at least
  that constant (or, for Debug, of a negative constant from a negative level), which
  cannot overflow, so the levels are integers here.
\<close>

type_synonym Level = int

definition LevelDebug :: Level where "LevelDebug = - 4"
definition LevelInfo :: Level where "LevelInfo = 0"
definition LevelWarn :: Level where "LevelWarn = 4"
definition LevelError :: Level where "LevelError = 8"

text \<open>
  Modelled from the spec: the helper \<open>str\<close> local to \<open>Level.String\<close> of log/slog, which
  is not part of this repository. It prints a named level, followed by the signed distance
  of the level from it when that is not zero (\<open>INFO+2\<close>, \<open>DEBUG-4\<close>): the names of
  custom levels as log/slog documents them; the spec names the four named levels only.
\<close>

definition str :: "string \<Rightarrow> Level \<Rightarrow> string" where
  "str base val = (if val = 0 then base else base @ Sprintf_plus_d val)"

text \<open>
  Modelled from the spec: \<open>Level.String\<close> of log/slog, which \<open>checkLevel\<close> calls and
  which is not part of this repository. The spec (section 6) gives the names
  \<open>DEBUG\<close>, \<open>INFO\<close>, \<open>WARN\<close> and \<open>ERROR\<close> of the four named levels, "case as produced
  by the external formatter". A level between two named ones takes the name of the named
  level below it, and a level below Debug that of Debug, with the offset \<open>str\<close> adds.
\<close>

definition Level_String :: "Level \<Rightarrow> string" where
  "Level_String l =
     (if l < LevelInfo then str ''DEBUG'' (l - LevelDebug)
      else if l < LevelWarn then str ''INFO'' (l - LevelInfo)
      else if l < LevelError then str ''WARN'' (l - LevelWarn)
      else str ''ERROR'' (l - LevelError))"

text \<open>
  \<open>slog.HandlerOptions\<close>: the options of the built-in handlers (whether to attach the
  call site, the minimum level, the attribute-rewrite hook). The repository only passes
  the value on; the hook is kept abstract. Every field of the Go zero value is unset.
\<close>

type_synonym Attr = "string \<times> string"

record 'r HandlerOptions =
  AddSource :: bool
  Level :: "Level option"
  ReplaceAttr :: "'r option"

definition zero_HandlerOptions :: "'r HandlerOptions" where
  "zero_HandlerOptions = \<lparr>AddSource = False, HandlerOptions.Level = None, ReplaceAttr = None\<rparr>"

text \<open>
  \<open>slog.Record\<close>: the repository reads only its \<open>Level\<close> and forwards the record to
  the child handlers.
\<close>

record slog_Record =
  Message :: string
  Level :: Level
  Attrs :: "Attr list"

text \<open>A Go \<open>error\<close> value; \<open>nil\<close> is \<^const>\<open>None\<close> of \<^typ>\<open>'a option\<close>.\<close>

datatype error = errors_New string

text \<open>
  \<open>slog.Handler\<close> is an interface: the four methods of a child handler are whatever the
  child's dynamic type implements. A child is a value of type \<open>'h\<close>, \<open>context.Context\<close>
  is \<open>'c\<close>, and a method may read and change the world \<open>'w\<close> outside the handler
  (the stream a backend writes to), so each method is a transformer of \<open>'w\<close>.
\<close>

record ('h, 'c, 'w) slog_Handler =
  h_Enabled :: "'h \<Rightarrow> 'c \<Rightarrow> Level \<Rightarrow> 'w \<Rightarrow> bool \<times> 'w"
  h_Handle :: "'h \<Rightarrow> 'c \<Rightarrow> slog_Record \<Rightarrow> 'w \<Rightarrow> error option \<times> 'w"
  h_WithAttrs :: "'h \<Rightarrow> Attr list \<Rightarrow> 'w \<Rightarrow> 'h \<times> 'w"
  h_WithGroup :: "'h \<Rightarrow> string \<Rightarrow> 'w \<Rightarrow> 'h \<times> 'w"

section \<open>combined\_handler.go\<close>

text \<open>
  \<open>CombinedHandler\<close> holds a slice of handlers. Its methods have a value receiver and
  only read the slice; the two \<open>With\<close> methods append to a fresh slice. A list models it.
\<close>

record 'h CombinedHandler =
  handlers :: "'h list"

text \<open>The loop of \<open>Enabled\<close>: \<open>for _, handler := range h.handlers\<close>.\<close>

fun Enabled_loop ::
  "('h, 'c, 'w) slog_Handler \<Rightarrow> 'h list \<Rightarrow> 'c \<Rightarrow> Level \<Rightarrow> 'w \<Rightarrow> bool \<times> 'w" where
  "Enabled_loop I [] ctx level w = (False, w)"
| "Enabled_loop I (handler # rest) ctx level w =
     (let (enabled, w') = h_Enabled I handler ctx level w
      in if enabled then (True, w') else Enabled_loop I rest ctx level w')"

definition Enabled ::
  "('h, 'c, 'w) slog_Handler \<Rightarrow> 'h CombinedHandler \<Rightarrow> 'c \<Rightarrow> Level \<Rightarrow> 'w \<Rightarrow> bool \<times> 'w" where
  "Enabled I h ctx level w = Enabled_loop I (handlers h) ctx level w"

text \<open>
  The loop of \<open>Handle\<close>: a child that is not enabled for \<open>record.Level\<close> is skipped
  (\<open>continue\<close>); the first error of a child's \<open>Handle\<close> is returned at once.
\<close>

fun Handle_loop ::
  "('h, 'c, 'w) slog_Handler \<Rightarrow> 'h list \<Rightarrow> 'c \<Rightarrow> slog_Record \<Rightarrow> 'w \<Rightarrow> error option \<times> 'w" where
  "Handle_loop I [] ctx record w = (None, w)"
| "Handle_loop I (handler # rest) ctx record w =
     (let (enabled, w1) = h_Enabled I handler ctx (Level record) w
      in if \<not> enabled then Handle_loop I rest ctx record w1
         else (let (err, w2) = h_Handle I handler ctx record w1
               in if err \<noteq> None then (err, w2) else Handle_loop I rest ctx record w2))"

definition Handle ::
  "('h, 'c, 'w) slog_Handler \<Rightarrow> 'h CombinedHandler \<Rightarrow> 'c \<Rightarrow> slog_Record \<Rightarrow> 'w
     \<Rightarrow> error option \<times> 'w" where
  "Handle I h ctx record w = Handle_loop I (handlers h) ctx record w"

text \<open>
  The loops of \<open>WithAttrs\<close> and \<open>WithGroup\<close>:
  \<open>newHandler.handlers = append(newHandler.handlers, handler.WithAttrs(attrs))\<close>.
\<close>

fun WithAttrs_loop ::
  "('h, 'c, 'w) slog_Handler \<Rightarrow> 'h list \<Rightarrow> Attr list \<Rightarrow> 'h CombinedHandler \<Rightarrow> 'w
     \<Rightarrow> 'h CombinedHandler \<times> 'w" where
  "WithAttrs_loop I [] attrs newHandler w = (newHandler, w)"
| "WithAttrs_loop I (handler # rest) attrs newHandler w =
     (let (child, w') = h_WithAttrs I handler attrs w
      in WithAttrs_loop I rest attrs
           (newHandler\<lparr>handlers := handlers newHandler @ [child]\<rparr>) w')"

definition WithAttrs ::
  "('h, 'c, 'w) slog_Handler \<Rightarrow> 'h CombinedHandler \<Rightarrow> Attr list \<Rightarrow> 'w
     \<Rightarrow> 'h CombinedHandler \<times> 'w" where
  "WithAttrs I h attrs w =
     (if length attrs = 0 then (h, w)
      else WithAttrs_loop I (handlers h) attrs \<lparr>handlers = []\<rparr> w)"

fun WithGroup_loop ::
  "('h, 'c, 'w) slog_Handler \<Rightarrow> 'h list \<Rightarrow> string \<Rightarrow> 'h CombinedHandler \<Rightarrow> 'w
     \<Rightarrow> 'h CombinedHandler \<times> 'w" where
  "WithGroup_loop I [] name newHandler w = (newHandler, w)"
| "WithGroup_loop I (handler # rest) name newHandler w =
     (let (child, w') = h_WithGroup I handler name w
      in WithGroup_loop I rest name
           (newHandler\<lparr>handlers := handlers newHandler @ [child]\<rparr>) w')"

definition WithGroup ::
  "('h, 'c, 'w) slog_Handler \<Rightarrow> 'h CombinedHandler \<Rightarrow> string \<Rightarrow> 'w
     \<Rightarrow> 'h CombinedHandler \<times> 'w" where
  "WithGroup I h name w =
     (if name = [] then (h, w)
      else WithGroup_loop I (handlers h) name \<lparr>handlers = []\<rparr> w)"

definition NewCombinedHandler :: "'h list \<Rightarrow> 'h CombinedHandler" where
  "NewCombinedHandler hs = \<lparr>handlers = hs\<rparr>"

subsection \<open>Observing the calls made on the children\<close>

text \<open>
  Which child methods a run calls, in which order and with which results, is observed by
  recording every call: \<open>traced I\<close> behaves as \<open>I\<close> does on the world and appends one
  entry per call to a log kept beside it.
\<close>

datatype ('h, 'c) call =
    EnabledCall 'h 'c Level bool
  | HandleCall 'h 'c slog_Record "error option"
  | WithAttrsCall 'h "Attr list" 'h
  | WithGroupCall 'h string 'h

definition traced ::
  "('h, 'c, 'w) slog_Handler \<Rightarrow> ('h, 'c, 'w \<times> ('h, 'c) call list) slog_Handler" where
  "traced I =
     \<lparr>h_Enabled = (\<lambda>c ctx level (w, t).
        (let (b, w') = h_Enabled I c ctx level w in (b, (w', t @ [EnabledCall c ctx level b])))),
      h_Handle = (\<lambda>c ctx record (w, t).
        (let (err, w') = h_Handle I c ctx record w in (err, (w', t @ [HandleCall c ctx record err])))),
      h_WithAttrs = (\<lambda>c attrs (w, t).
        (let (c', w') = h_WithAttrs I c attrs w in (c', (w', t @ [WithAttrsCall c attrs c'])))),
      h_WithGroup = (\<lambda>c name (w, t).
        (let (c', w') = h_WithGroup I c name w in (c', (w', t @ [WithGroupCall c name c']))))\<rparr>"

text \<open>
  The calls one iteration of the loop of \<open>Handle\<close> makes on a child when the loop goes
  on to the next child: the child is asked and is not enabled, or it is enabled and its
  \<open>Handle\<close> returns no error.
\<close>

definition passed :: "'c \<Rightarrow> slog_Record \<Rightarrow> 'h \<Rightarrow> ('h, 'c) call list \<Rightarrow> bool" where
  "passed ctx record c evs \<longleftrightarrow>
     evs = [EnabledCall c ctx (Level record) False] \<or>
     evs = [EnabledCall c ctx (Level record) True, HandleCall c ctx record None]"

text \<open>
  The calls a whole run of the loop of \<open>Handle\<close> over the children \<open>hs\<close> makes, given
  its result: with no error every child is passed in order; with the error \<open>e\<close> the
  children before some child \<open>c\<close> are passed in order, \<open>c\<close> is enabled and its
  \<open>Handle\<close> returns \<open>e\<close>, and that is the last call.
\<close>

definition Handle_calls ::
  "'c \<Rightarrow> slog_Record \<Rightarrow> 'h list \<Rightarrow> error option \<Rightarrow> ('h, 'c) call list \<Rightarrow> bool" where
  "Handle_calls ctx record hs res t \<longleftrightarrow>
     (res = None \<and> (\<exists>segs. list_all2 (passed ctx record) hs segs \<and> t = concat segs)) \<or>
     (\<exists>e pre c post segs. res = Some e \<and> hs = pre @ c # post \<and>
        list_all2 (passed ctx record) pre segs \<and>
        t = concat segs @
          [EnabledCall c ctx (Level record) True, HandleCall c ctx record (Some e)])"

section \<open>The console writer and its handler\<close>

text \<open>The level sniffer.\<close>

definition checkLevel :: "string \<Rightarrow> Level \<Rightarrow> bool" where
  \<open>checkLevel log level =
     (Contains log (''level='' @ Level_String level) \<or>
      Contains log (''"level":"'' @ Level_String level @ ''"''))\<close>

text \<open>
  Modelled from the spec: the colour attributes of github.com/fatih/color, which is not
  part of this repository, by their ANSI codes: the spec (section 6) asks for the ANSI
  foreground colours red, yellow and blue, which are 31, 33 and 34, and 0 resets.
\<close>

type_synonym Attribute = nat

definition Reset :: Attribute where "Reset = 0"
definition FgRed :: Attribute where "FgRed = 31"
definition FgYellow :: Attribute where "FgYellow = 33"
definition FgBlue :: Attribute where "FgBlue = 34"

text \<open>
  Modelled from the spec: the ANSI escape sequence that selects an attribute, the escape
  byte, \<open>[\<close>, the code in decimal and \<open>m\<close>.
\<close>

definition escape_sequence :: "Attribute \<Rightarrow> string" where
  "escape_sequence c = CHR 0x1B # ''['' @ decimal c @ ''m''"

text \<open>
  Modelled from the spec: \<open>color.New(c).Fprint\<close> of github.com/fatih/color, which is not
  part of this repository. The spec (section 4.2) has it write the line to the stream
  wrapped in the escape sequence of the colour and return what that write reports. The
  package's switch that turns colour off for a stream that is not a terminal is not
  described by the spec and is left out.

  \<open>io_Write\<close> is the \<open>Write\<close> method of the \<open>io.Writer\<close> behind the stream \<open>'f\<close>:
  a transformer of the state \<open>'s\<close> of the streams that returns the byte count and
  the error.
\<close>

definition color_Fprint ::
  "('f \<Rightarrow> string \<Rightarrow> 's \<Rightarrow> (int \<times> error option) \<times> 's) \<Rightarrow> Attribute \<Rightarrow> 'f \<Rightarrow> string \<Rightarrow> 's
     \<Rightarrow> (int \<times> error option) \<times> 's" where
  "color_Fprint io_Write c stream a s =
     io_Write stream (escape_sequence c @ a @ escape_sequence Reset) s"

text \<open>
  \<open>ConsoleLogWriter\<close> and its \<open>Write\<close>: the \<open>switch\<close> takes the first case that
  holds.
\<close>

record 'f ConsoleLogWriter =
  outputStream :: 'f

definition Write ::
  "('f \<Rightarrow> string \<Rightarrow> 's \<Rightarrow> (int \<times> error option) \<times> 's) \<Rightarrow> 'f ConsoleLogWriter \<Rightarrow> string \<Rightarrow> 's
     \<Rightarrow> (int \<times> error option) \<times> 's" where
  "Write io_Write w p s =
     (let log = p
      in if checkLevel log LevelError then color_Fprint io_Write FgRed (outputStream w) log s
         else if checkLevel log LevelWarn then color_Fprint io_Write FgYellow (outputStream w) log s
         else if checkLevel log LevelInfo then color_Fprint io_Write FgBlue (outputStream w) log s
         else io_Write (outputStream w) log s)"

text \<open>
  The colour the spec gives a line: the levels Error, Warning, Info are tried in this
  order and the first whose marker the line contains decides; a line with none of the
  three has no colour. This definition follows the spec (section 4.2), not the code.
\<close>

definition spec_colour :: "string \<Rightarrow> Attribute option" where
  "spec_colour line =
     map_option snd
       (find (\<lambda>(level, c). checkLevel line level)
          [(LevelError, FgRed), (LevelWarn, FgYellow), (LevelInfo, FgBlue)])"

record 'r ConsoleLogWriterOpts =
  JSON :: bool
  LogToStdout :: bool
  HandlerOptions :: "'r HandlerOptions"

text \<open>The Go zero value of the options: \<open>var opts ConsoleLogWriterOpts\<close>.\<close>

definition zero_ConsoleLogWriterOpts :: "'r ConsoleLogWriterOpts" where
  "zero_ConsoleLogWriterOpts =
     \<lparr>JSON = False, LogToStdout = False, HandlerOptions = zero_HandlerOptions\<rparr>"

text \<open>
  The package \<open>os\<close> holds the two streams of the process in variables; the function reads
  them when it is called.
\<close>

record 'f os =
  Stdout :: 'f
  Stderr :: 'f

text \<open>
  The handlers log/slog builds: \<open>slog.NewJSONHandler(w, opts)\<close> and
  \<open>slog.NewTextHandler(w, opts)\<close>, kept as the constructor and its two arguments.
\<close>

datatype ('f, 'r) builtin_Handler =
    NewJSONHandler "'f ConsoleLogWriter" "'r HandlerOptions"
  | NewTextHandler "'f ConsoleLogWriter" "'r HandlerOptions"

definition NewConsoleLogHandler ::
  "'f os \<Rightarrow> 'r ConsoleLogWriterOpts list \<Rightarrow> ('f, 'r) builtin_Handler" where
  "NewConsoleLogHandler os options =
     (let opts = (if length options > 0 then options ! 0 else zero_ConsoleLogWriterOpts);
          outputStream = (if LogToStdout opts then Stdout os else Stderr os);
          writer = \<lparr>outputStream = outputStream\<rparr>
      in if JSON opts then NewJSONHandler writer (HandlerOptions opts)
         else NewTextHandler writer (HandlerOptions opts))"

section \<open>Concrete backends and streams\<close>

text \<open>
  The backends of the test suite, for runs on concrete input: a handler with a minimum
  level (\<open>HandlerOptions{Level: ...}\<close>) that writes the record's message to a shared
  output, under the keys and groups bound to it so far, and whose \<open>Handle\<close> fails when
  its stream has been closed (\<open>TestNewCombinedHandler_HandleError\<close>).
\<close>

datatype backend = Backend (minLevel: Level) (closed: bool) (bound: "string list")

definition backend_Handler :: "(backend, unit, (string list \<times> string) list) slog_Handler" where
  "backend_Handler =
     \<lparr>h_Enabled = (\<lambda>b ctx level w. (minLevel b \<le> level, w)),
      h_Handle = (\<lambda>b ctx record w.
        if closed b then (Some (errors_New ''file already closed''), w)
        else (None, w @ [(bound b, Message record)])),
      h_WithAttrs = (\<lambda>b attrs w. (Backend (minLevel b) (closed b) (bound b @ map fst attrs), w)),
      h_WithGroup = (\<lambda>b name w. (Backend (minLevel b) (closed b) (bound b @ [name]), w))\<rparr>"

text \<open>
  The streams of a process by file descriptor, standard output 1 and standard error 2;
  a write appends the bytes to the list of what each stream received and reports their
  number.
\<close>

definition fd_Write ::
  "nat \<Rightarrow> string \<Rightarrow> (nat \<times> string) list \<Rightarrow> (int \<times> error option) \<times> (nat \<times> string) list" where
  "fd_Write fd p s = ((int (length p), None), s @ [(fd, p)])"

definition process_os :: "nat os" where
  "process_os = \<lparr>Stdout = 1, Stderr = 2\<rparr>"

section \<open>The calls of the loops\<close>

lemma traced_Enabled:
  "h_Enabled (traced I) c ctx level (w, t) =
     (let (b, w') = h_Enabled I c ctx level w in (b, (w', t @ [EnabledCall c ctx level b])))"
  by (simp add: traced_def)

lemma traced_Handle:
  "h_Handle (traced I) c ctx record (w, t) =
     (let (err, w') = h_Handle I c ctx record w in (err, (w', t @ [HandleCall c ctx record err])))"
  by (simp add: traced_def)



lemma Enabled_loop_traced:
  "Enabled_loop (traced I) hs ctx level (w, t0) = (b, (w', t)) \<Longrightarrow>
     Enabled_loop I hs ctx level w = (b, w') \<and>
     (\<exists>t1. t = t0 @ t1 \<and>
        ((\<not> b \<and> t1 = map (\<lambda>c. EnabledCall c ctx level False) hs) \<or>
         (b \<and> (\<exists>pre c post. hs = pre @ c # post \<and>
            t1 = map (\<lambda>c. EnabledCall c ctx level False) pre @ [EnabledCall c ctx level True]))))"
proof (induction hs arbitrary: w t0)
  case Nil
  then show ?case by simp
next
  case (Cons a hs)
  obtain e w1 where step: "h_Enabled I a ctx level w = (e, w1)" by (cases "h_Enabled I a ctx level w")
  show ?case
  proof (cases e)
    case True
    with Cons.prems step have "b" "w' = w1" "t = t0 @ [EnabledCall a ctx level True]"
      by (simp_all add: traced_Enabled)
    moreover have "a # hs = [] @ a # hs" by simp
    ultimately show ?thesis using step True by fastforce
  next
    case False
    with Cons.prems step
    have rest: "Enabled_loop (traced I) hs ctx level (w1, t0 @ [EnabledCall a ctx level False]) = (b, (w', t))"
      by (simp add: traced_Enabled)
    from Cons.IH [OF rest] obtain t1 where
      run: "Enabled_loop I hs ctx level w1 = (b, w')" and
      t: "t = (t0 @ [EnabledCall a ctx level False]) @ t1" and
      shape: "(\<not> b \<and> t1 = map (\<lambda>c. EnabledCall c ctx level False) hs) \<or>
         (b \<and> (\<exists>pre c post. hs = pre @ c # post \<and>
            t1 = map (\<lambda>c. EnabledCall c ctx level False) pre @ [EnabledCall c ctx level True]))"
      by blast
    have run': "Enabled_loop I (a # hs) ctx level w = (b, w')"
      using step False run by simp
    from shape show ?thesis
    proof
      assume "\<not> b \<and> t1 = map (\<lambda>c. EnabledCall c ctx level False) hs"
      then show ?thesis using run' t by simp
    next
      assume "b \<and> (\<exists>pre c post. hs = pre @ c # post \<and>
            t1 = map (\<lambda>c. EnabledCall c ctx level False) pre @ [EnabledCall c ctx level True])"
      then obtain pre c post where b and hs: "hs = pre @ c # post" and
        t1: "t1 = map (\<lambda>c. EnabledCall c ctx level False) pre @ [EnabledCall c ctx level True]"
        by blast
      have "a # hs = (a # pre) @ c # post" using hs by simp
      moreover have "EnabledCall a ctx level False # t1 =
         map (\<lambda>c. EnabledCall c ctx level False) (a # pre) @ [EnabledCall c ctx level True]"
        using t1 by simp
      ultimately show ?thesis using run' t \<open>b\<close> by (metis append.assoc append_Cons append_Nil)
    qed
  qed
qed

lemma Enabled_loop_pure:
  "(\<forall>c\<in>set hs. \<forall>w. h_Enabled I c ctx level w = (en c, w)) \<Longrightarrow>
     Enabled_loop I hs ctx level w = ((\<exists>c\<in>set hs. en c), w)"
  by (induction hs) auto

lemma Handle_calls_Nil: "Handle_calls ctx record [] None []"
  unfolding Handle_calls_def by simp

lemma Handle_calls_fail:
  "Handle_calls ctx record (a # hs) (Some e)
     [EnabledCall a ctx (Level record) True, HandleCall a ctx record (Some e)]"
proof -
  have "a # hs = [] @ a # hs" by simp
  moreover have "list_all2 (passed ctx record) [] []" by simp
  moreover have "[EnabledCall a ctx (Level record) True, HandleCall a ctx record (Some e)] =
         concat [] @ [EnabledCall a ctx (Level record) True, HandleCall a ctx record (Some e)]"
    by simp
  ultimately have "\<exists>e' pre c post segs. Some e = Some e' \<and> a # hs = pre @ c # post \<and>
        list_all2 (passed ctx record) pre segs \<and>
        [EnabledCall a ctx (Level record) True, HandleCall a ctx record (Some e)] = concat segs @
          [EnabledCall c ctx (Level record) True, HandleCall c ctx record (Some e')]"
    by (intro exI [of _ e] exI [of _ "[]"] exI [of _ a] exI [of _ hs]) simp
  then show ?thesis unfolding Handle_calls_def by (rule disjI2)
qed

lemma Handle_calls_Cons:
  assumes seg: "passed ctx record a seg" and rest: "Handle_calls ctx record hs res t"
  shows "Handle_calls ctx record (a # hs) res (seg @ t)"
  using rest unfolding Handle_calls_def
proof (elim disjE conjE exE)
  fix segs
  assume "res = None" and all: "list_all2 (passed ctx record) hs segs" and t: "t = concat segs"
  have "list_all2 (passed ctx record) (a # hs) (seg # segs)" using seg all by simp
  moreover have "seg @ t = concat (seg # segs)" using t by simp
  ultimately have "\<exists>segs'. list_all2 (passed ctx record) (a # hs) segs' \<and> seg @ t = concat segs'"
    by (intro exI [of _ "seg # segs"] conjI)
  with \<open>res = None\<close> show "(res = None \<and> (\<exists>segs. list_all2 (passed ctx record) (a # hs) segs \<and> seg @ t = concat segs)) \<or>
     (\<exists>e pre c post segs. res = Some e \<and> a # hs = pre @ c # post \<and>
        list_all2 (passed ctx record) pre segs \<and>
        seg @ t = concat segs @
          [EnabledCall c ctx (Level record) True, HandleCall c ctx record (Some e)])"
    by (intro disjI1 conjI)
next
  fix e pre c post segs
  assume r: "res = Some e" and hs: "hs = pre @ c # post"
    and all: "list_all2 (passed ctx record) pre segs"
    and t: "t = concat segs @ [EnabledCall c ctx (Level record) True, HandleCall c ctx record (Some e)]"
  have 1: "a # hs = (a # pre) @ c # post" using hs by simp
  have 2: "list_all2 (passed ctx record) (a # pre) (seg # segs)" using seg all by simp
  have 3: "seg @ t = concat (seg # segs) @
      [EnabledCall c ctx (Level record) True, HandleCall c ctx record (Some e)]"
    using t by simp
  have "\<exists>e pre c post segs. res = Some e \<and> a # hs = pre @ c # post \<and>
        list_all2 (passed ctx record) pre segs \<and>
        seg @ t = concat segs @
          [EnabledCall c ctx (Level record) True, HandleCall c ctx record (Some e)]"
    using r 1 2 3
    by (intro exI [of _ e] exI [of _ "a # pre"] exI [of _ c] exI [of _ post] exI [of _ "seg # segs"] conjI)
  then show "(res = None \<and> (\<exists>segs. list_all2 (passed ctx record) (a # hs) segs \<and> seg @ t = concat segs)) \<or>
     (\<exists>e pre c post segs. res = Some e \<and> a # hs = pre @ c # post \<and>
        list_all2 (passed ctx record) pre segs \<and>
        seg @ t = concat segs @
          [EnabledCall c ctx (Level record) True, HandleCall c ctx record (Some e)])"
    by (rule disjI2)
qed

lemma Handle_loop_traced:
  "Handle_loop (traced I) hs ctx record (w, t0) = (res, (w', t)) \<Longrightarrow>
     Handle_loop I hs ctx record w = (res, w') \<and>
     (\<exists>t1. t = t0 @ t1 \<and> Handle_calls ctx record hs res t1)"
proof (induction hs arbitrary: w t0)
  case Nil
  then show ?case by (simp add: Handle_calls_Nil)
next
  case (Cons a hs)
  let ?lv = "Level record"
  obtain en w1 where ask: "h_Enabled I a ctx ?lv w = (en, w1)"
    by (cases "h_Enabled I a ctx ?lv w")
  obtain err w2 where emit: "h_Handle I a ctx record w1 = (err, w2)"
    by (cases "h_Handle I a ctx record w1")
  show ?case
  proof (cases en)
    case False
    let ?seg = "[EnabledCall a ctx ?lv False]"
    from Cons.prems ask False
    have rest: "Handle_loop (traced I) hs ctx record (w1, t0 @ ?seg) = (res, (w', t))"
      by (simp add: traced_Enabled)
    have here: "Handle_loop I (a # hs) ctx record w = Handle_loop I hs ctx record w1"
      using ask False by simp
    from Cons.IH [OF rest] obtain t1 where
      run: "Handle_loop I hs ctx record w1 = (res, w')" and
      t: "t = (t0 @ ?seg) @ t1" and
      shape: "Handle_calls ctx record hs res t1"
      by blast
    have "passed ctx record a ?seg" by (simp add: passed_def)
    from Handle_calls_Cons [OF this shape]
    have "Handle_calls ctx record (a # hs) res (?seg @ t1)" .
    moreover have "t = t0 @ (?seg @ t1)" using t by simp
    moreover have "Handle_loop I (a # hs) ctx record w = (res, w')"
      using here run by simp
    ultimately show ?thesis by blast
  next
    case True
    from Cons.prems ask emit True
    have step: "(if err \<noteq> None then (err, (w2, t0 @ [EnabledCall a ctx ?lv True, HandleCall a ctx record err]))
         else Handle_loop (traced I) hs ctx record
                (w2, t0 @ [EnabledCall a ctx ?lv True, HandleCall a ctx record err])) = (res, (w', t))"
      by (simp add: traced_Enabled traced_Handle)
    have here: "Handle_loop I (a # hs) ctx record w =
        (if err \<noteq> None then (err, w2) else Handle_loop I hs ctx record w2)"
      using ask emit True by simp
    show ?thesis
    proof (cases err)
      case (Some e)
      from step [unfolded Some] have
        "(Some e, (w2, t0 @ [EnabledCall a ctx ?lv True, HandleCall a ctx record (Some e)])) =
           (res, (w', t))"
        by auto
      then have r: "res = Some e" and w: "w' = w2" and
        t: "t = t0 @ [EnabledCall a ctx ?lv True, HandleCall a ctx record (Some e)]"
        by auto
      have "Handle_loop I (a # hs) ctx record w = (res, w')" using here Some r w by simp
      moreover have "Handle_calls ctx record (a # hs) res
          [EnabledCall a ctx ?lv True, HandleCall a ctx record (Some e)]"
        unfolding r by (rule Handle_calls_fail)
      ultimately show ?thesis using t by blast
    next
      case None
      let ?seg = "[EnabledCall a ctx ?lv True, HandleCall a ctx record None]"
      from step None
      have rest: "Handle_loop (traced I) hs ctx record (w2, t0 @ ?seg) = (res, (w', t))"
        by simp
      from Cons.IH [OF rest] obtain t1 where
        run: "Handle_loop I hs ctx record w2 = (res, w')" and
        t: "t = (t0 @ ?seg) @ t1" and
        shape: "Handle_calls ctx record hs res t1"
        by blast
      have "passed ctx record a ?seg" by (simp add: passed_def)
      from Handle_calls_Cons [OF this shape]
      have "Handle_calls ctx record (a # hs) res (?seg @ t1)" .
      moreover have "t = t0 @ (?seg @ t1)" using t by simp
      moreover have "Handle_loop I (a # hs) ctx record w = (res, w')"
        using here None run by simp
      ultimately show ?thesis by blast
    qed
  qed
qed





section \<open>The fan-out handler\<close>

lemmas level_defs = LevelDebug_def LevelInfo_def LevelWarn_def LevelError_def

text \<open>
  Claim C1. For every fan-out handler and every record, \<open>Handle\<close> goes through the
  children in construction order. It asks each child \<open>Enabled\<close> for the record's level
  and calls \<open>Handle\<close> of the child only when the answer is true. The first error a
  child's \<open>Handle\<close> returns is returned at once, and that call is the last one: no
  later child is asked or called. When no enabled child fails, every child has been
  passed and the result is \<open>nil\<close>. The run on the recorded interface returns what the
  run on the interface itself returns.
\<close>

theorem Handle_fail_fast:
  assumes run: "Handle (traced I) h ctx record (w, []) = (res, (w', t))"
  shows "Handle I h ctx record w = (res, w') \<and>
     ((res = None \<and>
        (\<exists>segs. list_all2 (passed ctx record) (handlers h) segs \<and> t = concat segs)) \<or>
      (\<exists>e pre c post segs. res = Some e \<and> handlers h = pre @ c # post \<and>
         list_all2 (passed ctx record) pre segs \<and>
         t = concat segs @
           [EnabledCall c ctx (Level record) True, HandleCall c ctx record (Some e)]))"
proof -
  from run have "Handle_loop (traced I) (handlers h) ctx record (w, []) = (res, (w', t))"
    by (simp add: Handle_def)
  from Handle_loop_traced [OF this]
  have "Handle_loop I (handlers h) ctx record w = (res, w')"
    and "Handle_calls ctx record (handlers h) res t"
    by auto
  then show ?thesis by (simp add: Handle_def Handle_calls_def)
qed

text \<open>
  The fail-fast run of the spec, after a child that is not enabled: the second child fails
  and the healthy third child is neither asked nor called.
\<close>

theorem Handle_fail_fast_witness:
  "Handle (traced backend_Handler)
     \<lparr>handlers = [Backend LevelError False [], Backend LevelInfo True [], Backend LevelInfo False []]\<rparr>
     () \<lparr>Message = ''this is an info log'', Level = LevelInfo, Attrs = []\<rparr> ([], []) =
   (Some (errors_New ''file already closed''),
    ([],
     [EnabledCall (Backend LevelError False []) () LevelInfo False,
      EnabledCall (Backend LevelInfo True []) () LevelInfo True,
      HandleCall (Backend LevelInfo True []) ()
        \<lparr>Message = ''this is an info log'', Level = LevelInfo, Attrs = []\<rparr>
        (Some (errors_New ''file already closed''))])) \<and>
   Handle backend_Handler
     \<lparr>handlers = [Backend LevelError False [], Backend LevelInfo True [], Backend LevelInfo False []]\<rparr>
     () \<lparr>Message = ''this is an info log'', Level = LevelInfo, Attrs = []\<rparr> [] =
   (Some (errors_New ''file already closed''), [])"
proof -
  have run: "Handle (traced backend_Handler)
     \<lparr>handlers = [Backend LevelError False [], Backend LevelInfo True [], Backend LevelInfo False []]\<rparr>
     () \<lparr>Message = ''this is an info log'', Level = LevelInfo, Attrs = []\<rparr> ([], []) =
   (Some (errors_New ''file already closed''),
    ([],
     [EnabledCall (Backend LevelError False []) () LevelInfo False,
      EnabledCall (Backend LevelInfo True []) () LevelInfo True,
      HandleCall (Backend LevelInfo True []) ()
        \<lparr>Message = ''this is an info log'', Level = LevelInfo, Attrs = []\<rparr>
        (Some (errors_New ''file already closed''))]))"
    by (simp add: Handle_def traced_def backend_Handler_def level_defs)
  from Handle_fail_fast [OF run] have "Handle backend_Handler
     \<lparr>handlers = [Backend LevelError False [], Backend LevelInfo True [], Backend LevelInfo False []]\<rparr>
     () \<lparr>Message = ''this is an info log'', Level = LevelInfo, Attrs = []\<rparr> [] =
   (Some (errors_New ''file already closed''), [])"
    by (rule conjunct1)
  with run show ?thesis by (rule conjI)
qed

text \<open>
  Claim C4. For every fan-out handler and level, \<open>Enabled\<close> returns true exactly when
  the \<open>Enabled\<close> of some child returned true for that level. The children are asked in
  construction order and the first child that answers true ends the run: either every
  child was asked and answered false, or the children before some child answered false,
  that child answered true and nothing was asked after it. When the answer of a child
  depends on the child alone, the result is true exactly when some child is enabled.
\<close>

theorem Enabled_any_child:
  assumes run: "Enabled (traced I) h ctx level (w, []) = (b, (w', t))"
  shows "Enabled I h ctx level w = (b, w') \<and>
     (b \<longleftrightarrow> (\<exists>c. EnabledCall c ctx level True \<in> set t)) \<and>
     ((\<not> b \<and> t = map (\<lambda>c. EnabledCall c ctx level False) (handlers h)) \<or>
      (b \<and> (\<exists>pre c post. handlers h = pre @ c # post \<and>
         t = map (\<lambda>c. EnabledCall c ctx level False) pre @ [EnabledCall c ctx level True]))) \<and>
     ((\<forall>c\<in>set (handlers h). \<forall>w. h_Enabled I c ctx level w = (en c, w)) \<longrightarrow>
        b = (\<exists>c\<in>set (handlers h). en c))"
proof -
  from run have "Enabled_loop (traced I) (handlers h) ctx level (w, []) = (b, (w', t))"
    by (simp add: Enabled_def)
  from Enabled_loop_traced [OF this]
  have plain: "Enabled_loop I (handlers h) ctx level w = (b, w')"
    and shape: "(\<not> b \<and> t = map (\<lambda>c. EnabledCall c ctx level False) (handlers h)) \<or>
      (b \<and> (\<exists>pre c post. handlers h = pre @ c # post \<and>
         t = map (\<lambda>c. EnabledCall c ctx level False) pre @ [EnabledCall c ctx level True]))"
    by auto
  from shape have some: "b \<longleftrightarrow> (\<exists>c. EnabledCall c ctx level True \<in> set t)"
    by auto
  have pure: "b = (\<exists>c\<in>set (handlers h). en c)"
    if "\<forall>c\<in>set (handlers h). \<forall>w. h_Enabled I c ctx level w = (en c, w)"
    using Enabled_loop_pure [OF that, of w] plain by simp
  from plain some shape pure show ?thesis by (simp add: Enabled_def)
qed

text \<open>
  The two runs of the test suite: children at Warn and Error are not enabled for Info;
  with a child at Info the answer is true and the child after it is not asked.
\<close>

theorem Enabled_any_child_witness:
  "Enabled (traced backend_Handler)
     \<lparr>handlers = [Backend LevelWarn False [], Backend LevelError False []]\<rparr> () LevelInfo ([], []) =
   (False, ([],
     [EnabledCall (Backend LevelWarn False []) () LevelInfo False,
      EnabledCall (Backend LevelError False []) () LevelInfo False])) \<and>
   Enabled backend_Handler
     \<lparr>handlers = [Backend LevelWarn False [], Backend LevelError False []]\<rparr> () LevelInfo [] =
   (False, []) \<and>
   Enabled (traced backend_Handler)
     \<lparr>handlers = [Backend LevelWarn False [], Backend LevelInfo False [], Backend LevelError False []]\<rparr>
     () LevelInfo ([], []) =
   (True, ([],
     [EnabledCall (Backend LevelWarn False []) () LevelInfo False,
      EnabledCall (Backend LevelInfo False []) () LevelInfo True])) \<and>
   Enabled backend_Handler
     \<lparr>handlers = [Backend LevelWarn False [], Backend LevelInfo False [], Backend LevelError False []]\<rparr>
     () LevelInfo [] =
   (True, [])"
proof -
  have run1: "Enabled (traced backend_Handler)
     \<lparr>handlers = [Backend LevelWarn False [], Backend LevelError False []]\<rparr> () LevelInfo ([], []) =
   (False, ([],
     [EnabledCall (Backend LevelWarn False []) () LevelInfo False,
      EnabledCall (Backend LevelError False []) () LevelInfo False]))"
    by (simp add: Enabled_def traced_def backend_Handler_def level_defs)
  have run2: "Enabled (traced backend_Handler)
     \<lparr>handlers = [Backend LevelWarn False [], Backend LevelInfo False [], Backend LevelError False []]\<rparr>
     () LevelInfo ([], []) =
   (True, ([],
     [EnabledCall (Backend LevelWarn False []) () LevelInfo False,
      EnabledCall (Backend LevelInfo False []) () LevelInfo True]))"
    by (simp add: Enabled_def traced_def backend_Handler_def level_defs)
  from Enabled_any_child [OF run1] have plain1: "Enabled backend_Handler
     \<lparr>handlers = [Backend LevelWarn False [], Backend LevelError False []]\<rparr> () LevelInfo [] =
   (False, [])"
    by (rule conjunct1)
  from Enabled_any_child [OF run2] have plain2: "Enabled backend_Handler
     \<lparr>handlers = [Backend LevelWarn False [], Backend LevelInfo False [], Backend LevelError False []]\<rparr>
     () LevelInfo [] =
   (True, [])"
    by (rule conjunct1)
  from run1 plain1 run2 plain2 show ?thesis by (intro conjI)
qed





text \<open>
  Claim C7. \<open>WithAttrs\<close> with an empty attribute list and \<open>WithGroup\<close> with the
  empty name return the receiver itself and leave the world as it was: no child is called
  and no handler is built.
\<close>

theorem With_identity:
  "WithAttrs I h [] w = (h, w) \<and> WithGroup I h '''' w = (h, w) \<and>
   WithAttrs (traced I) h [] (w, t) = (h, (w, t)) \<and>
   WithGroup (traced I) h '''' (w, t) = (h, (w, t))"
  by (simp add: WithAttrs_def WithGroup_def)

text \<open>
  Claim C9. For the handler \<open>NewCombinedHandler\<close> builds from no child, \<open>Enabled\<close> is
  false for every context and level and \<open>Handle\<close> returns \<open>nil\<close> for every context and
  record; neither makes any call on a child.
\<close>

theorem empty_CombinedHandler:
  "Enabled I (NewCombinedHandler []) ctx level w = (False, w) \<and>
   Handle I (NewCombinedHandler []) ctx record w = (None, w) \<and>
   Enabled (traced I) (NewCombinedHandler []) ctx level (w, []) = (False, (w, [])) \<and>
   Handle (traced I) (NewCombinedHandler []) ctx record (w, []) = (None, (w, []))"
  by (simp add: Enabled_def Handle_def NewCombinedHandler_def)

section \<open>The level sniffer and the console writer\<close>

lemma Contains_iff: "Contains s t \<longleftrightarrow> (\<exists>pre post. s = pre @ t @ post)"
proof (induction s)
  case Nil
  then show ?case by auto
next
  case (Cons c s)
  show ?case
  proof
    assume "Contains (c # s) t"
    then consider (here) "prefix t (c # s)" | (later) "Contains s t" by auto
    then show "\<exists>pre post. c # s = pre @ t @ post"
    proof cases
      case here
      then obtain post where "c # s = t @ post" by (auto simp: prefix_def)
      then have "c # s = [] @ t @ post" by simp
      then show ?thesis by blast
    next
      case later
      with Cons.IH obtain pre post where "s = pre @ t @ post" by blast
      then have "c # s = (c # pre) @ t @ post" by simp
      then show ?thesis by blast
    qed
  next
    assume "\<exists>pre post. c # s = pre @ t @ post"
    then obtain pre post where eq: "c # s = pre @ t @ post" by blast
    show "Contains (c # s) t"
    proof (cases pre)
      case Nil
      with eq have "prefix t (c # s)" by (simp add: prefix_def)
      then show ?thesis by simp
    next
      case (Cons a pre')
      with eq have "s = pre' @ t @ post" by simp
      then have "Contains s t" using Cons.IH by blast
      then show ?thesis by simp
    qed
  qed
qed

lemma Level_String_named:
  "Level_String LevelDebug = ''DEBUG''" "Level_String LevelInfo = ''INFO''"
  "Level_String LevelWarn = ''WARN''" "Level_String LevelError = ''ERROR''"
  by (simp_all add: Level_String_def str_def level_defs)

lemma escape_sequences:
  "escape_sequence FgRed = CHR 0x1B # ''[31m''"
  "escape_sequence FgYellow = CHR 0x1B # ''[33m''"
  "escape_sequence FgBlue = CHR 0x1B # ''[34m''"
  "escape_sequence Reset = CHR 0x1B # ''[0m''"
  by (simp_all add: escape_sequence_def FgRed_def FgYellow_def FgBlue_def Reset_def decimal.simps)

lemmas marker_simps =
  checkLevel_def Level_String_def str_def Sprintf_plus_d_def level_defs

text \<open>
  Claim C3. For every line and every level, \<open>checkLevel\<close> is true exactly when the line
  contains \<open>level=NAME\<close> or \<open>"level":"NAME"\<close>, where \<open>NAME\<close> is what \<open>Level.String\<close>
  gives for the level: \<open>DEBUG\<close>, \<open>INFO\<close>, \<open>WARN\<close>, \<open>ERROR\<close> for the four named levels.
  Containing is having the marker as a substring: some bytes before it and some after.
\<close>

theorem checkLevel_substring:
  \<open>(checkLevel log level \<longleftrightarrow>
      (\<exists>pre post. log = pre @ ''level='' @ Level_String level @ post) \<or>
      (\<exists>pre post. log = pre @ ''"level":"'' @ Level_String level @ ''"'' @ post)) \<and>
   Level_String LevelDebug = ''DEBUG'' \<and> Level_String LevelInfo = ''INFO'' \<and>
   Level_String LevelWarn = ''WARN'' \<and> Level_String LevelError = ''ERROR''\<close>
proof -
  have \<open>checkLevel log level \<longleftrightarrow>
      (\<exists>pre post. log = pre @ (''level='' @ Level_String level) @ post) \<or>
      (\<exists>pre post. log = pre @ (''"level":"'' @ Level_String level @ ''"'') @ post)\<close>
    unfolding checkLevel_def Contains_iff ..
  then show ?thesis by (simp add: Level_String_named)
qed

text \<open>
  Claim C2. For every writer and every input, \<open>Write\<close> does what the first match of the
  line against Error, Warning, Info (in this order) says: with a match, the result and
  the effect are those of the coloured write of the whole line in the colour of that
  level (red 31, yellow 33, blue 34, each followed by the reset sequence); with no
  match, those of writing the input bytes as they are to the stream.
\<close>

theorem Write_first_match:
  "Write io_Write w p s =
     (case spec_colour p of
        Some c \<Rightarrow> color_Fprint io_Write c (outputStream w) p s
      | None \<Rightarrow> io_Write (outputStream w) p s) \<and>
   color_Fprint io_Write FgRed (outputStream w) p s =
     io_Write (outputStream w) (CHR 0x1B # ''[31m'' @ p @ CHR 0x1B # ''[0m'') s \<and>
   color_Fprint io_Write FgYellow (outputStream w) p s =
     io_Write (outputStream w) (CHR 0x1B # ''[33m'' @ p @ CHR 0x1B # ''[0m'') s \<and>
   color_Fprint io_Write FgBlue (outputStream w) p s =
     io_Write (outputStream w) (CHR 0x1B # ''[34m'' @ p @ CHR 0x1B # ''[0m'') s \<and>
   spec_colour p =
     (if checkLevel p LevelError then Some FgRed
      else if checkLevel p LevelWarn then Some FgYellow
      else if checkLevel p LevelInfo then Some FgBlue
      else None)"
  by (simp add: Write_def spec_colour_def color_Fprint_def escape_sequences)

text \<open>
  Three lines of the test suite: the Info line of the text handler on standard error, the
  Error line of the JSON handler and the Debug line of the text handler on standard
  output.
\<close>

theorem Write_first_match_witness:
  \<open>Write fd_Write \<lparr>outputStream = 2\<rparr> ''level=INFO msg="this is a test log"\<newline>'' [] =
     ((45, None),
      [(2, CHR 0x1B # ''[34mlevel=INFO msg="this is a test log"\<newline>'' @ CHR 0x1B # ''[0m'')]) \<and>
   Write fd_Write \<lparr>outputStream = 1\<rparr> ''{"level":"ERROR","msg":"this is a test log"}\<newline>'' [] =
     ((54, None),
      [(1, CHR 0x1B # ''[31m{"level":"ERROR","msg":"this is a test log"}\<newline>'' @ CHR 0x1B # ''[0m'')]) \<and>
   Write fd_Write \<lparr>outputStream = 1\<rparr> ''level=DEBUG msg="this is a test log"\<newline>'' [] =
     ((37, None), [(1, ''level=DEBUG msg="this is a test log"\<newline>'')])\<close>
proof -
  have c1: \<open>spec_colour ''level=INFO msg="this is a test log"\<newline>'' = Some FgBlue\<close>
    by (simp add: spec_colour_def marker_simps)
  have c2: \<open>spec_colour ''{"level":"ERROR","msg":"this is a test log"}\<newline>'' = Some FgRed\<close>
    by (simp add: spec_colour_def marker_simps)
  have c3: \<open>spec_colour ''level=DEBUG msg="this is a test log"\<newline>'' = None\<close>
    by (simp add: spec_colour_def marker_simps)
  have w1: \<open>Write fd_Write \<lparr>outputStream = 2\<rparr> ''level=INFO msg="this is a test log"\<newline>'' [] =
      color_Fprint fd_Write FgBlue 2 ''level=INFO msg="this is a test log"\<newline>'' []\<close>
    using Write_first_match [of fd_Write "\<lparr>outputStream = 2\<rparr>"
        \<open>''level=INFO msg="this is a test log"\<newline>''\<close> "[]"]
    by (simp add: c1)
  have w2: \<open>Write fd_Write \<lparr>outputStream = 1\<rparr> ''{"level":"ERROR","msg":"this is a test log"}\<newline>'' [] =
      color_Fprint fd_Write FgRed 1 ''{"level":"ERROR","msg":"this is a test log"}\<newline>'' []\<close>
    using Write_first_match [of fd_Write "\<lparr>outputStream = 1\<rparr>"
        \<open>''{"level":"ERROR","msg":"this is a test log"}\<newline>''\<close> "[]"]
    by (simp add: c2)
  have w3: \<open>Write fd_Write \<lparr>outputStream = 1\<rparr> ''level=DEBUG msg="this is a test log"\<newline>'' [] =
      fd_Write 1 ''level=DEBUG msg="this is a test log"\<newline>'' []\<close>
    using Write_first_match [of fd_Write "\<lparr>outputStream = 1\<rparr>"
        \<open>''level=DEBUG msg="this is a test log"\<newline>''\<close> "[]"]
    by (simp add: c3)
  show ?thesis
    unfolding w1 w2 w3 by (simp add: color_Fprint_def escape_sequences fd_Write_def)
qed

text \<open>
  Claim C5, as stated, fails. The line a text handler renders for a Debug record whose
  message is \<open>level=ERROR\<close> carries the Debug marker, and Debug is none of the three
  coloured levels; the line also contains the Error marker, so it is written in red.
\<close>

theorem Debug_line_coloured:
  \<open>checkLevel ''level=DEBUG msg="level=ERROR"\<newline>'' LevelDebug \<and>
   LevelDebug \<noteq> LevelError \<and> LevelDebug \<noteq> LevelWarn \<and> LevelDebug \<noteq> LevelInfo \<and>
   Write fd_Write \<lparr>outputStream = 2\<rparr> ''level=DEBUG msg="level=ERROR"\<newline>'' [] =
     ((39, None),
      [(2, CHR 0x1B # ''[31mlevel=DEBUG msg="level=ERROR"\<newline>'' @ CHR 0x1B # ''[0m'')]) \<and>
   Write fd_Write \<lparr>outputStream = 2\<rparr> ''level=DEBUG msg="level=ERROR"\<newline>'' [] \<noteq>
     fd_Write 2 ''level=DEBUG msg="level=ERROR"\<newline>'' []\<close>
proof -
  have dbg: \<open>checkLevel ''level=DEBUG msg="level=ERROR"\<newline>'' LevelDebug\<close>
    by (simp add: marker_simps)
  have err: \<open>checkLevel ''level=DEBUG msg="level=ERROR"\<newline>'' LevelError\<close>
    by (simp add: marker_simps)
  have wr: \<open>Write fd_Write \<lparr>outputStream = 2\<rparr> ''level=DEBUG msg="level=ERROR"\<newline>'' [] =
     ((39, None),
      [(2, CHR 0x1B # ''[31mlevel=DEBUG msg="level=ERROR"\<newline>'' @ CHR 0x1B # ''[0m'')])\<close>
    by (simp add: Write_def err color_Fprint_def escape_sequences fd_Write_def)
  have ne: \<open>Write fd_Write \<lparr>outputStream = 2\<rparr> ''level=DEBUG msg="level=ERROR"\<newline>'' [] \<noteq>
     fd_Write 2 ''level=DEBUG msg="level=ERROR"\<newline>'' []\<close>
    unfolding wr by (simp add: fd_Write_def)
  have lv: "LevelDebug \<noteq> LevelError" "LevelDebug \<noteq> LevelWarn" "LevelDebug \<noteq> LevelInfo"
    by (simp_all add: level_defs)
  from dbg lv wr ne show ?thesis by (intro conjI)
qed

text \<open>
  A custom level in the text format is coloured too: log/slog names the level 2
  \<open>INFO+2\<close>, and \<open>level=INFO+2\<close> contains \<open>level=INFO\<close>.
\<close>

lemma custom_level_coloured:
  \<open>Level_String 2 = ''INFO+2'' \<and>
   checkLevel ''level=INFO+2 msg=hi\<newline>'' 2 \<and>
   Write fd_Write \<lparr>outputStream = 2\<rparr> ''level=INFO+2 msg=hi\<newline>'' [] =
     ((29, None), [(2, CHR 0x1B # ''[34mlevel=INFO+2 msg=hi\<newline>'' @ CHR 0x1B # ''[0m'')])\<close>
proof -
  have name: "Level_String 2 = ''INFO+2''"
    by (simp add: Level_String_def str_def Sprintf_plus_d_def level_defs decimal.simps)
  have own: \<open>checkLevel ''level=INFO+2 msg=hi\<newline>'' 2\<close>
    by (simp add: checkLevel_def name)
  have e: \<open>\<not> checkLevel ''level=INFO+2 msg=hi\<newline>'' LevelError\<close>
    and w: \<open>\<not> checkLevel ''level=INFO+2 msg=hi\<newline>'' LevelWarn\<close>
    and i: \<open>checkLevel ''level=INFO+2 msg=hi\<newline>'' LevelInfo\<close>
    by (simp_all add: marker_simps)
  have wr: \<open>Write fd_Write \<lparr>outputStream = 2\<rparr> ''level=INFO+2 msg=hi\<newline>'' [] =
     ((29, None), [(2, CHR 0x1B # ''[34mlevel=INFO+2 msg=hi\<newline>'' @ CHR 0x1B # ''[0m'')])\<close>
    by (simp add: Write_def e w i color_Fprint_def escape_sequences fd_Write_def)
  from name own wr show ?thesis by (intro conjI)
qed

text \<open>
  So is every line that contains the text marker of a level at or above Info: the name
  of such a level begins with \<open>INFO\<close>, \<open>WARN\<close> or \<open>ERROR\<close>, so the line contains the
  text marker of one of the three coloured levels.
\<close>

lemma Contains_append: "Contains s (a @ b) \<Longrightarrow> Contains s a"
proof -
  assume "Contains s (a @ b)"
  then obtain pre post where "s = pre @ (a @ b) @ post" unfolding Contains_iff by blast
  then have "s = pre @ a @ (b @ post)" by simp
  then show "Contains s a" unfolding Contains_iff by blast
qed

lemma str_prefix: "\<exists>suffix. str base val = base @ suffix"
  by (simp add: str_def)

lemma text_line_at_or_above_Info_coloured:
  assumes l: "LevelInfo \<le> l" and line: "Contains line (''level='' @ Level_String l)"
  shows "spec_colour line \<noteq> None"
proof -
  consider (info) "l < LevelWarn" | (warn) "LevelWarn \<le> l" "l < LevelError" | (error) "LevelError \<le> l"
    by linarith
  then have "checkLevel line LevelInfo \<or> checkLevel line LevelWarn \<or> checkLevel line LevelError"
  proof cases
    case info
    with l obtain suffix where "Level_String l = ''INFO'' @ suffix"
      using str_prefix [of "''INFO''" "l - LevelInfo"] by (auto simp: Level_String_def)
    with line have "Contains line (''level=INFO'' @ suffix)" by simp
    then have "Contains line ''level=INFO''" by (rule Contains_append)
    then show ?thesis by (simp add: checkLevel_def Level_String_named)
  next
    case warn
    then obtain suffix where "Level_String l = ''WARN'' @ suffix"
      using str_prefix [of "''WARN''" "l - LevelWarn"] by (auto simp: Level_String_def level_defs)
    with line have "Contains line (''level=WARN'' @ suffix)" by simp
    then have "Contains line ''level=WARN''" by (rule Contains_append)
    then show ?thesis by (simp add: checkLevel_def Level_String_named)
  next
    case error
    then obtain suffix where "Level_String l = ''ERROR'' @ suffix"
      using str_prefix [of "''ERROR''" "l - LevelError"] by (auto simp: Level_String_def level_defs)
    with line have "Contains line (''level=ERROR'' @ suffix)" by simp
    then have "Contains line ''level=ERROR''" by (rule Contains_append)
    then show ?thesis by (simp add: checkLevel_def Level_String_named)
  qed
  then show ?thesis by (auto simp: spec_colour_def)
qed

text \<open>
  Claim C5, amended. Every line that contains none of the six markers of the levels
  Error, Warning and Info is written to the stream as it is, with no escape sequence.
  The level a line was rendered at does not enter the condition.
\<close>

theorem Write_plain_without_marker:
  assumes \<open>\<not> Contains line ''level=ERROR''\<close> \<open>\<not> Contains line ''"level":"ERROR"''\<close>
    and \<open>\<not> Contains line ''level=WARN''\<close> \<open>\<not> Contains line ''"level":"WARN"''\<close>
    and \<open>\<not> Contains line ''level=INFO''\<close> \<open>\<not> Contains line ''"level":"INFO"''\<close>
  shows "Write io_Write w line s = io_Write (outputStream w) line s"
  using assms by (simp add: Write_def checkLevel_def Level_String_named)

text \<open>The Debug line of the JSON handler in the test suite.\<close>

theorem Write_plain_without_marker_witness:
  \<open>\<not> Contains ''{"level":"DEBUG","msg":"this is a test log"}\<newline>'' ''level=ERROR'' \<and>
   \<not> Contains ''{"level":"DEBUG","msg":"this is a test log"}\<newline>'' ''"level":"ERROR"'' \<and>
   \<not> Contains ''{"level":"DEBUG","msg":"this is a test log"}\<newline>'' ''level=WARN'' \<and>
   \<not> Contains ''{"level":"DEBUG","msg":"this is a test log"}\<newline>'' ''"level":"WARN"'' \<and>
   \<not> Contains ''{"level":"DEBUG","msg":"this is a test log"}\<newline>'' ''level=INFO'' \<and>
   \<not> Contains ''{"level":"DEBUG","msg":"this is a test log"}\<newline>'' ''"level":"INFO"'' \<and>
   checkLevel ''{"level":"DEBUG","msg":"this is a test log"}\<newline>'' LevelDebug \<and>
   Write fd_Write \<lparr>outputStream = 2\<rparr> ''{"level":"DEBUG","msg":"this is a test log"}\<newline>'' [] =
     ((45, None), [(2, ''{"level":"DEBUG","msg":"this is a test log"}\<newline>'')])\<close>
proof -
  have 1: \<open>\<not> Contains ''{"level":"DEBUG","msg":"this is a test log"}\<newline>'' ''level=ERROR''\<close>
    and 2: \<open>\<not> Contains ''{"level":"DEBUG","msg":"this is a test log"}\<newline>'' ''"level":"ERROR"''\<close>
    and 3: \<open>\<not> Contains ''{"level":"DEBUG","msg":"this is a test log"}\<newline>'' ''level=WARN''\<close>
    and 4: \<open>\<not> Contains ''{"level":"DEBUG","msg":"this is a test log"}\<newline>'' ''"level":"WARN"''\<close>
    and 5: \<open>\<not> Contains ''{"level":"DEBUG","msg":"this is a test log"}\<newline>'' ''level=INFO''\<close>
    and 6: \<open>\<not> Contains ''{"level":"DEBUG","msg":"this is a test log"}\<newline>'' ''"level":"INFO"''\<close>
    by simp_all
  have dbg: \<open>checkLevel ''{"level":"DEBUG","msg":"this is a test log"}\<newline>'' LevelDebug\<close>
    by (simp add: marker_simps)
  have wr: \<open>Write fd_Write \<lparr>outputStream = 2\<rparr> ''{"level":"DEBUG","msg":"this is a test log"}\<newline>'' [] =
     ((45, None), [(2, ''{"level":"DEBUG","msg":"this is a test log"}\<newline>'')])\<close>
    using Write_plain_without_marker [OF 1 2 3 4 5 6, of fd_Write "\<lparr>outputStream = 2\<rparr>" "[]"]
    by (simp add: fd_Write_def)
  from 1 2 3 4 5 6 dbg wr show ?thesis by (intro conjI)
qed

section \<open>The console handler\<close>

text \<open>
  Claim C8. Called with options, \<open>NewConsoleLogHandler\<close> takes standard output as the
  stream when \<open>LogToStdout\<close> is set and standard error otherwise, wraps the stream in a
  \<open>ConsoleLogWriter\<close>, and builds the JSON handler when \<open>JSON\<close> is set and the text
  handler otherwise, on that writer and on the \<open>HandlerOptions\<close> of the options as given.
\<close>

theorem NewConsoleLogHandler_options:
  "NewConsoleLogHandler os (\<lparr>JSON = json, LogToStdout = toStdout, HandlerOptions = ho\<rparr> # rest) =
     (if json
      then NewJSONHandler \<lparr>outputStream = (if toStdout then Stdout os else Stderr os)\<rparr> ho
      else NewTextHandler \<lparr>outputStream = (if toStdout then Stdout os else Stderr os)\<rparr> ho)"
  by (simp add: NewConsoleLogHandler_def)

text \<open>The options of the example, and text on standard error.\<close>

theorem NewConsoleLogHandler_options_witness:
  "NewConsoleLogHandler process_os
     [\<lparr>JSON = True, LogToStdout = True,
       HandlerOptions = \<lparr>AddSource = True, HandlerOptions.Level = Some LevelDebug,
         ReplaceAttr = (None :: unit option)\<rparr>\<rparr>] =
   NewJSONHandler \<lparr>outputStream = 1\<rparr>
     \<lparr>AddSource = True, HandlerOptions.Level = Some LevelDebug, ReplaceAttr = None\<rparr> \<and>
   NewConsoleLogHandler process_os
     [\<lparr>JSON = False, LogToStdout = False,
       HandlerOptions = \<lparr>AddSource = False, HandlerOptions.Level = Some LevelDebug,
         ReplaceAttr = (None :: unit option)\<rparr>\<rparr>] =
   NewTextHandler \<lparr>outputStream = 2\<rparr>
     \<lparr>AddSource = False, HandlerOptions.Level = Some LevelDebug, ReplaceAttr = None\<rparr>"
  using NewConsoleLogHandler_options [of process_os True True
      "\<lparr>AddSource = True, HandlerOptions.Level = Some LevelDebug, ReplaceAttr = (None :: unit option)\<rparr>" "[]"]
    NewConsoleLogHandler_options [of process_os False False
      "\<lparr>AddSource = False, HandlerOptions.Level = Some LevelDebug, ReplaceAttr = (None :: unit option)\<rparr>" "[]"]
  by (simp add: process_os_def)

text \<open>
  Claim C10. Called with no options, \<open>NewConsoleLogHandler\<close> does what it does on the
  zero value of the options: the text handler on standard error with the zero handler
  options. Called with more than one, it builds its result from the fields of the first
  alone: the stream by \<open>LogToStdout\<close> of the first, the JSON or the text handler by
  \<open>JSON\<close> of the first, on \<open>HandlerOptions\<close> of the first; the second and the later
  ones do not enter the result.
\<close>

theorem NewConsoleLogHandler_variadic:
  "NewConsoleLogHandler os [] = NewConsoleLogHandler os [zero_ConsoleLogWriterOpts] \<and>
   NewConsoleLogHandler os [] = NewTextHandler \<lparr>outputStream = Stderr os\<rparr> zero_HandlerOptions \<and>
   NewConsoleLogHandler os (first # second # rest) = NewConsoleLogHandler os [first] \<and>
   NewConsoleLogHandler os (first # second # rest) =
     (if JSON first
      then NewJSONHandler
        \<lparr>outputStream = (if LogToStdout first then Stdout os else Stderr os)\<rparr>
        (HandlerOptions first)
      else NewTextHandler
        \<lparr>outputStream = (if LogToStdout first then Stdout os else Stderr os)\<rparr>
        (HandlerOptions first))"
  by (simp add: NewConsoleLogHandler_def zero_ConsoleLogWriterOpts_def)

text \<open>
  Two options, the first asking for JSON on standard output and the second for text on
  standard error: the result is the JSON handler on standard output. No option: the text
  handler on standard error.
\<close>

theorem NewConsoleLogHandler_variadic_witness:
  "NewConsoleLogHandler process_os
     [\<lparr>JSON = True, LogToStdout = True,
       HandlerOptions = \<lparr>AddSource = True, HandlerOptions.Level = Some LevelDebug,
         ReplaceAttr = (None :: unit option)\<rparr>\<rparr>,
      \<lparr>JSON = False, LogToStdout = False, HandlerOptions = zero_HandlerOptions\<rparr>] =
   NewJSONHandler \<lparr>outputStream = 1\<rparr>
     \<lparr>AddSource = True, HandlerOptions.Level = Some LevelDebug, ReplaceAttr = None\<rparr> \<and>
   NewConsoleLogHandler process_os ([] :: unit ConsoleLogWriterOpts list) =
   NewTextHandler \<lparr>outputStream = 2\<rparr>
     \<lparr>AddSource = False, HandlerOptions.Level = None, ReplaceAttr = None\<rparr>"
proof -
  note v = NewConsoleLogHandler_variadic [of process_os
      "\<lparr>JSON = True, LogToStdout = True,
        HandlerOptions = \<lparr>AddSource = True, HandlerOptions.Level = Some LevelDebug,
          ReplaceAttr = (None :: unit option)\<rparr>\<rparr>"
      "\<lparr>JSON = False, LogToStdout = False, HandlerOptions = zero_HandlerOptions\<rparr>" "[]"]
  have many: "NewConsoleLogHandler process_os
     [\<lparr>JSON = True, LogToStdout = True,
       HandlerOptions = \<lparr>AddSource = True, HandlerOptions.Level = Some LevelDebug,
         ReplaceAttr = (None :: unit option)\<rparr>\<rparr>,
      \<lparr>JSON = False, LogToStdout = False, HandlerOptions = zero_HandlerOptions\<rparr>] =
   NewJSONHandler \<lparr>outputStream = 1\<rparr>
     \<lparr>AddSource = True, HandlerOptions.Level = Some LevelDebug, ReplaceAttr = None\<rparr>"
    using v [THEN conjunct2, THEN conjunct2, THEN conjunct2] by (simp add: process_os_def)
  have none: "NewConsoleLogHandler process_os ([] :: unit ConsoleLogWriterOpts list) =
   NewTextHandler \<lparr>outputStream = 2\<rparr>
     \<lparr>AddSource = False, HandlerOptions.Level = None, ReplaceAttr = None\<rparr>"
    using v [THEN conjunct2, THEN conjunct1] by (simp add: process_os_def zero_HandlerOptions_def)
  from many none show ?thesis by (rule conjI)
qed

end
